theory Spec2Isabelle
  imports Main
begin

section \<open>Log entries\<close>

text \<open>
  The \<^verbatim>\<open>LogEntry\<close> interface of the logger. The field \<^verbatim>\<open>type\<close> ranges over the three
  string literals \<^verbatim>\<open>'log' | 'error' | 'warn'\<close>; the optional field \<^verbatim>\<open>hash\<close> is an option.
  Strings are lists of 8-bit characters, \<^verbatim>\<open>timestamp\<close> (the value of \<^verbatim>\<open>Date.now()\<close>, a whole
  number of milliseconds) is an integer.
\<close>

datatype LogType = Log | Error | Warn

record LogEntry =
  type :: LogType
  message :: string
  params :: string
  timestamp :: int
  hash :: "string option"

definition type_name :: "LogType \<Rightarrow> string" where
  "type_name t = (case t of Log \<Rightarrow> ''log'' | Error \<Rightarrow> ''error'' | Warn \<Rightarrow> ''warn'')"

definition upper_char :: "char \<Rightarrow> char" where
  "upper_char c =
     (case map_of (zip ''abcdefghijklmnopqrstuvwxyz'' ''ABCDEFGHIJKLMNOPQRSTUVWXYZ'') c of
        Some u \<Rightarrow> u
      | None \<Rightarrow> c)"

definition toUpperCase :: "string \<Rightarrow> string" where
  "toUpperCase s = map upper_char s"

text \<open>\<^verbatim>\<open>Array.prototype.join\<close> on an array of strings.\<close>

fun join :: "string \<Rightarrow> string list \<Rightarrow> string" where
  "join sep [] = []"
| "join sep [x] = x"
| "join sep (x # y # ys) = x @ sep @ join sep (y # ys)"

section \<open>The JSON text of a queue\<close>

text \<open>
  \<^verbatim>\<open>JSON.stringify\<close> on a \<^verbatim>\<open>LogEntry[]\<close>: an array of objects whose keys appear in the order
  in which \<^verbatim>\<open>queueLog\<close> creates them (\<^verbatim>\<open>type\<close>, \<^verbatim>\<open>message\<close>, \<^verbatim>\<open>params\<close>, \<^verbatim>\<open>timestamp\<close>, and
  \<^verbatim>\<open>hash\<close> when present), without white space. String escaping follows the ECMAScript
  \<^verbatim>\<open>QuoteJSONString\<close>: the quote, the backslash and the control characters below 0x20.
\<close>

definition dquote :: char where
  "dquote = CHR 0x22"

definition backslash :: char where
  "backslash = CHR 0x5C"

text \<open>\<^verbatim>\<open>hex_digit\<close> is applied below 16 and \<^verbatim>\<open>digit_char\<close> below 10 only.\<close>

definition hex_digit :: "nat \<Rightarrow> char" where
  "hex_digit d = ''0123456789abcdef'' ! d"

definition escape_char :: "char \<Rightarrow> string" where
  "escape_char c =
     (if c = dquote then [backslash, dquote]
      else if c = backslash then [backslash, backslash]
      else if c = CHR 0x08 then [backslash, CHR ''b'']
      else if c = CHR 0x0C then [backslash, CHR ''f'']
      else if c = CHR 0x0A then [backslash, CHR ''n'']
      else if c = CHR 0x0D then [backslash, CHR ''r'']
      else if c = CHR 0x09 then [backslash, CHR ''t'']
      else if (of_char c :: nat) < 32
        then [backslash, CHR ''u'', CHR ''0'', CHR ''0'',
              hex_digit ((of_char c :: nat) div 16), hex_digit ((of_char c :: nat) mod 16)]
      else [c])"

definition quote :: "string \<Rightarrow> string" where
  "quote s = dquote # concat (map escape_char s) @ [dquote]"

definition digit_char :: "nat \<Rightarrow> char" where
  "digit_char d = ''0123456789'' ! d"

function digits_of :: "nat \<Rightarrow> string" where
  "digits_of n =
     (if n < 10 then [digit_char n]
      else digits_of (n div 10) @ [digit_char (n mod 10)])"
  by pat_completeness auto
termination
  by (relation "measure id") auto

declare digits_of.simps [simp del]

definition show_int :: "int \<Rightarrow> string" where
  "show_int i = (if i < 0 then CHR ''-'' # digits_of (nat (- i)) else digits_of (nat i))"

definition key :: "string \<Rightarrow> string" where
  "key k = quote k @ '':''"

definition encode_entry :: "LogEntry \<Rightarrow> string" where
  "encode_entry e =
     ''{'' @ key ''type'' @ quote (type_name (type e))
     @ '','' @ key ''message'' @ quote (message e)
     @ '','' @ key ''params'' @ quote (params e)
     @ '','' @ key ''timestamp'' @ show_int (timestamp e)
     @ (case hash e of None \<Rightarrow> [] | Some h \<Rightarrow> '','' @ key ''hash'' @ quote h)
     @ ''}''"

definition JSON_stringify :: "LogEntry list \<Rightarrow> string" where
  "JSON_stringify q = ''['' @ join '','' (map encode_entry q) @ '']''"

text \<open>
  \<^verbatim>\<open>JSON.parse(savedQueue) as LogEntry[]\<close>. The store under the queue key is written by
  \<^verbatim>\<open>saveQueue\<close> only, and the cast gives the parsed value the type \<^verbatim>\<open>LogEntry[]\<close>; the
  parser below reads the texts of that type and reports every other text as a failure
  (\<^verbatim>\<open>JSON.parse\<close> throwing). String literals are read with all JSON escapes; a \<^verbatim>\<open>\u\<close>
  escape above 0xFF has no 8-bit character and is a failure as well.
\<close>

fun expect :: "string \<Rightarrow> string \<Rightarrow> string option" where
  "expect [] s = Some s"
| "expect (p # ps) [] = None"
| "expect (p # ps) (c # cs) = (if p = c then expect ps cs else None)"

definition hex_val :: "char \<Rightarrow> nat option" where
  "hex_val c =
     (let n = (of_char c :: nat) in
      if 48 \<le> n \<and> n \<le> 57 then Some (n - 48)
      else if 97 \<le> n \<and> n \<le> 102 then Some (n - 87)
      else if 65 \<le> n \<and> n \<le> 70 then Some (n - 55)
      else None)"

definition hex4 :: "char \<Rightarrow> char \<Rightarrow> char \<Rightarrow> char \<Rightarrow> nat option" where
  "hex4 a b c d =
     (case (hex_val a, hex_val b, hex_val c, hex_val d) of
        (Some w, Some x, Some y, Some z) \<Rightarrow> Some (((w * 16 + x) * 16 + y) * 16 + z)
      | _ \<Rightarrow> None)"

definition unescape :: "char \<Rightarrow> char option" where
  "unescape e =
     (if e = dquote then Some dquote
      else if e = backslash then Some backslash
      else if e = CHR ''/'' then Some CHR ''/''
      else if e = CHR ''b'' then Some (CHR 0x08)
      else if e = CHR ''f'' then Some (CHR 0x0C)
      else if e = CHR ''n'' then Some (CHR 0x0A)
      else if e = CHR ''r'' then Some (CHR 0x0D)
      else if e = CHR ''t'' then Some (CHR 0x09)
      else None)"

definition prepend :: "char \<Rightarrow> (string \<times> string) option \<Rightarrow> (string \<times> string) option" where
  "prepend c r = (case r of None \<Rightarrow> None | Some (s, rest) \<Rightarrow> Some (c # s, rest))"

text \<open>The characters of a string literal after its opening quote, up to the closing quote.\<close>

fun parse_chars :: "string \<Rightarrow> (string \<times> string) option" where
  "parse_chars [] = None"
| "parse_chars (c # cs) =
     (if c = dquote then Some ([], cs)
      else if c = backslash then
        (case cs of
           [] \<Rightarrow> None
         | e # r \<Rightarrow>
             if e = CHR ''u'' then
               (case r of
                  h1 # h2 # h3 # h4 # r' \<Rightarrow>
                    (case hex4 h1 h2 h3 h4 of
                       None \<Rightarrow> None
                     | Some n \<Rightarrow> if n < 256 then prepend (char_of n) (parse_chars r') else None)
                | _ \<Rightarrow> None)
             else
               (case unescape e of
                  None \<Rightarrow> None
                | Some ch \<Rightarrow> prepend ch (parse_chars r)))
      else if (of_char c :: nat) < 32 then None
      else prepend c (parse_chars cs))"

declare parse_chars.simps [simp del]

definition parse_string :: "string \<Rightarrow> (string \<times> string) option" where
  "parse_string s = (case s of [] \<Rightarrow> None | c # cs \<Rightarrow> if c = dquote then parse_chars cs else None)"

definition is_digit :: "char \<Rightarrow> bool" where
  "is_digit c = (48 \<le> (of_char c :: nat) \<and> (of_char c :: nat) \<le> 57)"

definition nat_of_digits :: "string \<Rightarrow> nat" where
  "nat_of_digits ds = foldl (\<lambda>a c. 10 * a + ((of_char c :: nat) - 48)) 0 ds"

definition parse_nat :: "string \<Rightarrow> (nat \<times> string) option" where
  "parse_nat s =
     (let ds = takeWhile is_digit s in
      if ds = [] \<or> (1 < length ds \<and> hd ds = CHR ''0'') then None
      else Some (nat_of_digits ds, dropWhile is_digit s))"

definition parse_int :: "string \<Rightarrow> (int \<times> string) option" where
  "parse_int s =
     (case s of
        [] \<Rightarrow> None
      | c # cs \<Rightarrow>
          if c = CHR ''-'' then map_option (\<lambda>(n, r). (- int n, r)) (parse_nat cs)
          else map_option (\<lambda>(n, r). (int n, r)) (parse_nat s))"

definition type_of_name :: "string \<Rightarrow> LogType option" where
  "type_of_name s =
     (if s = ''log'' then Some Log else if s = ''error'' then Some Error
      else if s = ''warn'' then Some Warn else None)"

definition field_string :: "string \<Rightarrow> string \<Rightarrow> (string \<times> string) option" where
  "field_string pre s = Option.bind (expect pre s) parse_string"

definition field_int :: "string \<Rightarrow> string \<Rightarrow> (int \<times> string) option" where
  "field_int pre s = Option.bind (expect pre s) parse_int"

text \<open>The end of an object: either the closing brace, or the \<^verbatim>\<open>hash\<close> member and the brace.\<close>

definition parse_tail :: "string \<Rightarrow> (string option \<times> string) option" where
  "parse_tail s =
     (case expect ''}'' s of
        Some r \<Rightarrow> Some (None, r)
      | None \<Rightarrow>
          Option.bind (field_string ('','' @ key ''hash'') s) (\<lambda>(h, s').
          Option.bind (expect ''}'' s') (\<lambda>r. Some (Some h, r))))"

definition parse_entry :: "string \<Rightarrow> (LogEntry \<times> string) option" where
  "parse_entry s =
     Option.bind (field_string (''{'' @ key ''type'') s) (\<lambda>(tn, s1).
     Option.bind (type_of_name tn) (\<lambda>ty.
     Option.bind (field_string ('','' @ key ''message'') s1) (\<lambda>(m, s2).
     Option.bind (field_string ('','' @ key ''params'') s2) (\<lambda>(p, s3).
     Option.bind (field_int ('','' @ key ''timestamp'') s3) (\<lambda>(ts, s4).
     Option.bind (parse_tail s4) (\<lambda>(h, r).
       Some (\<lparr>type = ty, message = m, params = p, timestamp = ts, hash = h\<rparr>, r)))))))"

subsection \<open>Every parser consumes input\<close>

lemma expect_length: "expect p s = Some r \<Longrightarrow> length r + length p = length s"
  by (induction p s rule: expect.induct) (auto split: if_splits)
lemma parse_nat_length: "parse_nat s = Some (n, r) \<Longrightarrow> length r \<le> length s"
  by (auto simp: parse_nat_def Let_def length_dropWhile_le split: if_splits)

lemma parse_int_length: "parse_int s = Some (i, r) \<Longrightarrow> length r \<le> length s"
  by (fastforce simp: parse_int_def split: list.splits if_splits dest: parse_nat_length)
lemma prepend_Some: "prepend c x = Some (t, r) \<longleftrightarrow> (\<exists>t'. t = c # t' \<and> x = Some (t', r))"
  by (cases x) (auto simp: prepend_def)


lemma parse_chars_length: "parse_chars s = Some (t, r) \<Longrightarrow> length r < length s"
proof (induction s arbitrary: t rule: length_induct)
  case (1 s)
  show ?case
  proof (cases s)
    case Nil
    with 1 show ?thesis by (simp add: parse_chars.simps)
  next
    case (Cons c cs)
    note IH = "1.IH"[rule_format]
    from "1.prems" Cons have p: "parse_chars (c # cs) = Some (t, r)" by simp
    consider (q) "c = dquote" | (b) "c \<noteq> dquote" "c = backslash" | (n) "c \<noteq> dquote" "c \<noteq> backslash"
      by blast
    then show ?thesis
    proof cases
      case q
      with p Cons show ?thesis by (simp add: parse_chars.simps)
    next
      case n
      with p obtain t' where "parse_chars cs = Some (t', r)"
        by (auto simp: parse_chars.simps prepend_Some split: if_splits)
      with IH[of cs t'] Cons show ?thesis by simp
    next
      case b
      show ?thesis
      proof (cases cs)
        case Nil
        with b p show ?thesis by (simp add: parse_chars.simps)
      next
        case cs: (Cons e r0)
        show ?thesis
        proof (cases "e = CHR ''u''")
          case False
          with b p cs obtain t' where "parse_chars r0 = Some (t', r)"
            by (auto simp: parse_chars.simps prepend_Some split: option.splits)
          with IH[of r0 t'] Cons cs show ?thesis by simp
        next
          case True
          with b p cs obtain h1 h2 h3 h4 r' t' where "r0 = h1 # h2 # h3 # h4 # r'" "parse_chars r' = Some (t', r)"
            by (auto simp: parse_chars.simps prepend_Some split: option.splits list.splits if_splits)
          with IH[of r' t'] Cons cs show ?thesis by simp
        qed
      qed
    qed
  qed
qed

lemma parse_string_length: "parse_string s = Some (t, r) \<Longrightarrow> length r < length s"
  by (auto simp: parse_string_def split: list.splits if_splits dest: parse_chars_length)

lemma field_string_length: "field_string pre s = Some (t, r) \<Longrightarrow> length r + length pre < length s"
  by (auto simp: field_string_def Option.bind_eq_Some_conv
      dest!: expect_length parse_string_length)

lemma field_int_length: "field_int pre s = Some (i, r) \<Longrightarrow> length r + length pre \<le> length s"
  by (auto simp: field_int_def Option.bind_eq_Some_conv dest!: expect_length parse_int_length)

lemma parse_tail_length: "parse_tail s = Some (h, r) \<Longrightarrow> length r < length s"
  by (auto simp: parse_tail_def Option.bind_eq_Some_conv split: option.splits
      dest!: expect_length field_string_length)
lemma parse_entry_length: "parse_entry s = Some (e, r) \<Longrightarrow> length r < length s"
  unfolding parse_entry_def
  by (auto simp: Option.bind_eq_Some_conv
      dest!: field_string_length field_int_length parse_tail_length)

text \<open>
  The elements of a non-empty array after its opening bracket: an object, then either a
  comma and more elements, or the closing bracket at the end of the text.
\<close>

function parse_list :: "string \<Rightarrow> LogEntry list option" where
  "parse_list s =
     (case parse_entry s of
        None \<Rightarrow> None
      | Some (e, r) \<Rightarrow>
          (case r of
             [] \<Rightarrow> None
           | c # r' \<Rightarrow>
               if c = CHR '','' then map_option ((#) e) (parse_list r')
               else if c = CHR '']'' \<and> r' = [] then Some [e]
               else None))"
  by pat_completeness auto
termination
  by (relation "measure length") (auto dest: parse_entry_length)

declare parse_list.simps [simp del]

datatype sink_call =
    SetCrashlyticsCollectionEnabled bool
  | SetUserId string
  | SetAttribute string string
  | CrashlyticsLog string
  | RecordError string

datatype js_error =
    SyntaxError
  | CrashlyticsError sink_call
  | StorageError string
  | FormatError

definition JSON_parse :: "string \<Rightarrow> js_error + LogEntry list" where
  "JSON_parse s =
     (case s of
        [] \<Rightarrow> Inl SyntaxError
      | c # r \<Rightarrow>
          if c \<noteq> CHR ''['' then Inl SyntaxError
          else if r = '']'' then Inr []
          else (case parse_list r of None \<Rightarrow> Inl SyntaxError | Some q \<Rightarrow> Inr q))"

section \<open>The logger and its environment\<close>

text \<open>
  The state is the three mutable fields of the \<^verbatim>\<open>Logger\<close> object together with what the
  logger reaches outside itself: the MMKV store (\<^verbatim>\<open>storage\<close>), the calls Crashlytics has
  accepted so far, oldest first (\<^verbatim>\<open>remote\<close>), the interval timers that are running
  (\<^verbatim>\<open>timers\<close>, handle to period, with \<^verbatim>\<open>next_timer\<close> the next handle that
  \<^verbatim>\<open>setInterval\<close> hands out), and the lines written to the console. The type \<^typ>\<open>'v\<close> is
  the type of the JavaScript values a caller passes as \<^verbatim>\<open>optionalParams\<close>.
\<close>

datatype level = ConsoleLog | ConsoleError | ConsoleWarn | ConsoleDebug

datatype 'v console_arg = Text string | Thrown js_error | Value 'v

type_synonym 'v console_line = "level \<times> 'v console_arg list"

record 'v state =
  logQueue :: "LogEntry list"
  timerHandle :: "nat option"
  errorHashes :: "string set"
  storage :: "string \<rightharpoonup> string"
  remote :: "sink_call list"
  timers :: "nat \<rightharpoonup> nat"
  next_timer :: nat
  console :: "'v console_line list"

text \<open>
  What the logger cannot decide is an input. A Crashlytics call throws or not, depending
  on the calls accepted before it and on the call; \<^verbatim>\<open>storage.getString\<close> and
  \<^verbatim>\<open>storage.set\<close> throw or not, depending on the key; \<^verbatim>\<open>now\<close> is the value of
  \<^verbatim>\<open>Date.now()\<close>. \<^verbatim>\<open>Platform.OS\<close>, \<^verbatim>\<open>APP_ENV\<close> (after \<^verbatim>\<open>String(...)\<close>) and \<^verbatim>\<open>__DEV__\<close> are
  constants of the build. The built-ins that \<^verbatim>\<open>formatParams\<close> applies to a caller's values
  are \<^verbatim>\<open>typeof\<close>, the value \<^verbatim>\<open>null\<close>, \<^verbatim>\<open>JSON.stringify\<close> and \<^verbatim>\<open>String\<close>; the last two return
  a string or throw.
\<close>

record 'v env =
  crashlytics_throws :: "sink_call list \<Rightarrow> sink_call \<Rightarrow> bool"
  getString_throws :: "string \<Rightarrow> bool"
  set_throws :: "string \<Rightarrow> bool"
  now :: int
  Platform_OS :: string
  APP_ENV :: string
  DEV :: bool
  typeof :: "'v \<Rightarrow> string"
  js_null :: 'v
  stringify :: "'v \<Rightarrow> js_error + string"
  toString :: "'v \<Rightarrow> js_error + string"

text \<open>A step that may throw returns the error with the state reached when it was thrown.\<close>

type_synonym 'v result = "(js_error \<times> 'v state) + 'v state"

definition and_then :: "'v result \<Rightarrow> ('v state \<Rightarrow> 'v result) \<Rightarrow> 'v result" where
  "and_then r f = (case r of Inl x \<Rightarrow> Inl x | Inr s \<Rightarrow> f s)"

definition console_add :: "'v console_line \<Rightarrow> 'v state \<Rightarrow> 'v state" where
  "console_add l s = s\<lparr>console := console s @ [l]\<rparr>"

definition crashlytics :: "'v env \<Rightarrow> sink_call \<Rightarrow> 'v state \<Rightarrow> 'v result" where
  "crashlytics env c s =
     (if crashlytics_throws env (remote s) c then Inl (CrashlyticsError c, s)
      else Inr (s\<lparr>remote := remote s @ [c]\<rparr>))"

definition QUEUE_KEY :: string where
  "QUEUE_KEY = ''logger_queue''"


text \<open>The object as the constructor leaves it before \<^verbatim>\<open>init\<close> runs, over a given store.\<close>

definition new_Logger :: "(string \<rightharpoonup> string) \<Rightarrow> 'v state" where
  "new_Logger st =
     \<lparr>logQueue = [], timerHandle = None, errorHashes = {}, storage = st, remote = [],
      timers = Map.empty, next_timer = 1, console = []\<rparr>"

subsection \<open>startFlushTimer\<close>


subsection \<open>restoreQueue and saveQueue\<close>

text \<open>
  The \<^verbatim>\<open>forEach\<close> of \<^verbatim>\<open>restoreQueue\<close>: the hash of an entry is added when the entry is an
  error and its hash is truthy, that is present and not the empty string.
\<close>

fun add_hashes :: "LogEntry list \<Rightarrow> string set \<Rightarrow> string set" where
  "add_hashes [] hs = hs"
| "add_hashes (entry # es) hs =
     add_hashes es
       (case hash entry of
          Some h \<Rightarrow> if type entry = Error \<and> h \<noteq> [] then insert h hs else hs
        | None \<Rightarrow> hs)"

definition restoreQueue :: "'v env \<Rightarrow> 'v state \<Rightarrow> 'v state" where
  "restoreQueue env s =
     (if getString_throws env QUEUE_KEY
      then console_add (ConsoleError, [Text ''[Logger] Failed to restore queue:'',
                                       Thrown (StorageError QUEUE_KEY)]) s
      else
        (case storage s QUEUE_KEY of
           None \<Rightarrow> s
         | Some savedQueue \<Rightarrow>
             if savedQueue = [] then s
             else
               (case JSON_parse savedQueue of
                  Inl err \<Rightarrow>
                    console_add (ConsoleError, [Text ''[Logger] Failed to restore queue:'',
                                                Thrown err]) s
                | Inr parsedQueue \<Rightarrow>
                    console_add
                      (ConsoleLog, [Text (''[Logger] Restored '' @ digits_of (length parsedQueue)
                                          @ '' queued logs'')])
                      (s\<lparr>logQueue := parsedQueue,
                         errorHashes := add_hashes parsedQueue (errorHashes s)\<rparr>))))"

definition saveQueue :: "'v env \<Rightarrow> 'v state \<Rightarrow> 'v state" where
  "saveQueue env s =
     (if set_throws env QUEUE_KEY
      then console_add (ConsoleError, [Text ''[Logger] Failed to save queue:'',
                                       Thrown (StorageError QUEUE_KEY)]) s
      else s\<lparr>storage := (storage s)(QUEUE_KEY \<mapsto> JSON_stringify (logQueue s))\<rparr>)"

subsection \<open>flushLogs\<close>

definition log_line :: "LogEntry \<Rightarrow> string" where
  "log_line entry =
     ''['' @ toUpperCase (type_name (type entry)) @ ''] '' @ message entry @ '' '' @ params entry"

definition error_line :: "LogEntry \<Rightarrow> string" where
  "error_line entry = ''[ERROR] '' @ message entry @ '' '' @ params entry"

definition error_description :: "LogEntry \<Rightarrow> string" where
  "error_description entry = message entry @ '' '' @ params entry"

text \<open>The two \<^verbatim>\<open>for\<close> loops of \<^verbatim>\<open>flushLogs\<close>; each stops at the first call that throws.\<close>

fun deliver_normal :: "'v env \<Rightarrow> LogEntry list \<Rightarrow> 'v state \<Rightarrow> 'v result" where
  "deliver_normal env [] s = Inr s"
| "deliver_normal env (entry # es) s =
     and_then (crashlytics env (CrashlyticsLog (log_line entry)) s) (deliver_normal env es)"

fun deliver_errors :: "'v env \<Rightarrow> LogEntry list \<Rightarrow> 'v state \<Rightarrow> 'v result" where
  "deliver_errors env [] s = Inr s"
| "deliver_errors env (entry # es) s =
     and_then (crashlytics env (CrashlyticsLog (error_line entry)) s) (\<lambda>s1.
     and_then (crashlytics env (RecordError (error_description entry)) s1)
       (deliver_errors env es))"

definition flushLogs :: "'v env \<Rightarrow> 'v state \<Rightarrow> 'v state" where
  "flushLogs env s =
     (if length (logQueue s) = 0 then s
      else
        (let s0 = console_add
                    (ConsoleLog, [Text (''[Logger] Flushing '' @ digits_of (length (logQueue s))
                                        @ '' logs to Crashlytics'')]) s;
             errorLogs = filter (\<lambda>entry. type entry = Error) (logQueue s0);
             normalLogs = filter (\<lambda>entry. type entry \<noteq> Error) (logQueue s0)
         in case and_then (deliver_normal env normalLogs s0) (deliver_errors env errorLogs) of
              Inr s1 \<Rightarrow>
                console_add (ConsoleLog, [Text ''[Logger] Successfully flushed logs to Crashlytics''])
                  (saveQueue env (s1\<lparr>logQueue := [], errorHashes := {}\<rparr>))
            | Inl (err, s1) \<Rightarrow>
                console_add (ConsoleError, [Text ''[Logger] Failed to flush logs:'', Thrown err]) s1))"

definition forceFlush :: "'v env \<Rightarrow> 'v state \<Rightarrow> 'v state" where
  "forceFlush env s = flushLogs env s"

subsection \<open>queueLog\<close>

definition generateErrorHash :: "string \<Rightarrow> string \<Rightarrow> string" where
  "generateErrorHash m p = m @ '':'' @ p"

definition queueLog :: "'v env \<Rightarrow> LogType \<Rightarrow> string \<Rightarrow> string \<Rightarrow> 'v state \<Rightarrow> 'v state" where
  "queueLog env ty m p s =
     (let entry = \<lparr>type = ty, message = m, params = p, timestamp = now env, hash = None\<rparr> in
      if ty = Error then
        (let h = generateErrorHash m p in
         if h \<in> errorHashes s
         then console_add (ConsoleLog, [Text ''[Logger] Skipping duplicate error:'', Text m]) s
         else saveQueue env
                (s\<lparr>errorHashes := insert h (errorHashes s),
                   logQueue := logQueue s @ [entry\<lparr>hash := Some h\<rparr>]\<rparr>))
      else saveQueue env (s\<lparr>logQueue := logQueue s @ [entry]\<rparr>))"

subsection \<open>formatParams and the public methods\<close>

text \<open>
  The function that \<^verbatim>\<open>formatParams\<close> maps over the parameters, and the \<^verbatim>\<open>map\<close> itself, left
  to right; a built-in that throws ends it.
\<close>

definition format_param :: "'v env \<Rightarrow> 'v \<Rightarrow> js_error + string" where
  "format_param env param =
     (if typeof env param = ''object'' \<and> param \<noteq> js_null env then stringify env param
      else toString env param)"

fun map_params :: "'v env \<Rightarrow> 'v list \<Rightarrow> js_error + string list" where
  "map_params env [] = Inr []"
| "map_params env (param # ps) =
     (case format_param env param of
        Inl err \<Rightarrow> Inl err
      | Inr t \<Rightarrow> (case map_params env ps of Inl err \<Rightarrow> Inl err | Inr ts \<Rightarrow> Inr (t # ts)))"

definition formatParams :: "'v env \<Rightarrow> 'v list \<Rightarrow> 'v state \<Rightarrow> string \<times> 'v state" where
  "formatParams env ps s =
     (if length ps = 0 then ([], s)
      else
        (case map_params env ps of
           Inr ts \<Rightarrow> (join '' '' ts, s)
         | Inl err \<Rightarrow>
             (''[Error formatting parameters]'',
              console_add (ConsoleError, [Text ''[Logger] Error formatting log parameters:'',
                                          Thrown err]) s)))"

text \<open>
  In this model neither \<^verbatim>\<open>formatParams\<close> nor \<^verbatim>\<open>queueLog\<close> throws, so the \<^verbatim>\<open>catch\<close> blocks of
  \<^verbatim>\<open>log\<close>, \<^verbatim>\<open>error\<close> and \<^verbatim>\<open>warn\<close> are never entered.
\<close>

definition log :: "'v env \<Rightarrow> string \<Rightarrow> 'v list \<Rightarrow> 'v state \<Rightarrow> 'v state" where
  "log env msg optionalParams s =
     (let logMessage = ''[LOG] '' @ msg;
          s1 = console_add (ConsoleLog, Text logMessage # map Value optionalParams) s;
          (formattedParams, s2) = formatParams env optionalParams s1
      in queueLog env Log logMessage formattedParams s2)"

definition debug :: "'v env \<Rightarrow> string \<Rightarrow> 'v list \<Rightarrow> 'v state \<Rightarrow> 'v state" where
  "debug env msg optionalParams s =
     (if DEV env
      then console_add (ConsoleDebug, Text (''[DEBUG] '' @ msg) # map Value optionalParams) s
      else s)"

definition error :: "'v env \<Rightarrow> string \<Rightarrow> 'v list \<Rightarrow> 'v state \<Rightarrow> 'v state" where
  "error env msg optionalParams s =
     (let errorMessage = ''[ERROR] '' @ msg;
          s1 = console_add (ConsoleError, Text errorMessage # map Value optionalParams) s;
          (formattedParams, s2) = formatParams env optionalParams s1
      in queueLog env Error errorMessage formattedParams s2)"

definition warn :: "'v env \<Rightarrow> string \<Rightarrow> 'v list \<Rightarrow> 'v state \<Rightarrow> 'v state" where
  "warn env msg optionalParams s =
     (let warnMessage = ''[WARN] '' @ msg;
          s1 = console_add (ConsoleWarn, Text warnMessage # map Value optionalParams) s;
          (formattedParams, s2) = formatParams env optionalParams s1
      in queueLog env Warn warnMessage formattedParams s2)"

subsection \<open>init\<close>




section \<open>A concrete environment\<close>

text \<open>
  A small universe of JavaScript values with their built-ins, for evaluating the logger
  on concrete calls: \<^verbatim>\<open>Cyclic\<close> is an object that refers to itself, on which
  \<^verbatim>\<open>JSON.stringify\<close> throws.
\<close>

datatype js_value = Null | Boolean bool | Number int | Str string
  | Array "js_value list" | Cyclic

definition js_typeof :: "js_value \<Rightarrow> string" where
  "js_typeof v =
     (case v of Null \<Rightarrow> ''object'' | Boolean b \<Rightarrow> ''boolean''
      | Number n \<Rightarrow> ''number'' | Str t \<Rightarrow> ''string'' | Array vs \<Rightarrow> ''object''
      | Cyclic \<Rightarrow> ''object'')"

fun js_json :: "js_value \<Rightarrow> string option" where
  "js_json Null = Some ''null''"
| "js_json (Boolean b) = Some (if b then ''true'' else ''false'')"
| "js_json (Number n) = Some (show_int n)"
| "js_json (Str t) = Some (quote t)"
| "js_json Cyclic = None"
| "js_json (Array vs) =
     (if list_all (\<lambda>v. js_json v \<noteq> None) vs
      then Some (''['' @ join '','' (map (\<lambda>v. the (js_json v)) vs) @ '']'')
      else None)"

definition js_stringify :: "js_value \<Rightarrow> js_error + string" where
  "js_stringify v = (case js_json v of None \<Rightarrow> Inl FormatError | Some t \<Rightarrow> Inr t)"

fun js_string :: "js_value \<Rightarrow> string" where
  "js_string Null = ''null''"
| "js_string (Boolean b) = (if b then ''true'' else ''false'')"
| "js_string (Number n) = show_int n"
| "js_string (Str t) = t"
| "js_string Cyclic = ''[object Object]''"
| "js_string (Array vs) =
     join '','' (map (\<lambda>v. if v = Null then [] else js_string v) vs)"

definition calm :: "int \<Rightarrow> js_value env" where
  "calm t =
     \<lparr>crashlytics_throws = (\<lambda>accepted c. False), getString_throws = (\<lambda>k. False),
      set_throws = (\<lambda>k. False), now = t, Platform_OS = ''ios'', APP_ENV = ''production'',
      DEV = False, typeof = js_typeof, js_null = Null, stringify = js_stringify,
      toString = (\<lambda>v. Inr (js_string v))\<rparr>"

section \<open>Notions for stating the properties\<close>

subsection \<open>Calls offered to Crashlytics\<close>

text \<open>
  \<^verbatim>\<open>accepts_all env accepted cs\<close>: a Crashlytics that has accepted the calls \<^verbatim>\<open>accepted\<close> accepts
  each call of \<^verbatim>\<open>cs\<close> in turn. \<^verbatim>\<open>flush_calls q\<close> are the calls that a flush of the queue \<^verbatim>\<open>q\<close>
  makes when none throws, and \<^verbatim>\<open>init_calls\<close> those of \<^verbatim>\<open>init\<close>; \<^verbatim>\<open>send_all\<close> makes the calls of
  a list one after the other and stops at the first that throws.
\<close>

fun accepts_all :: "'v env \<Rightarrow> sink_call list \<Rightarrow> sink_call list \<Rightarrow> bool" where
  "accepts_all env accepted [] = True"
| "accepts_all env accepted (c # cs) =
     (\<not> crashlytics_throws env accepted c \<and> accepts_all env (accepted @ [c]) cs)"

definition flush_calls :: "LogEntry list \<Rightarrow> sink_call list" where
  "flush_calls q =
     map (\<lambda>entry. CrashlyticsLog (log_line entry)) (filter (\<lambda>entry. type entry \<noteq> Error) q)
     @ concat (map (\<lambda>entry. [CrashlyticsLog (error_line entry),
                               RecordError (error_description entry)])
                 (filter (\<lambda>entry. type entry = Error) q))"

fun send_all :: "'v env \<Rightarrow> sink_call list \<Rightarrow> 'v state \<Rightarrow> 'v result" where
  "send_all env [] s = Inr s"
| "send_all env (c # cs) s = and_then (crashlytics env c s) (send_all env cs)"




subsection \<open>The dedupe set against the queue\<close>

text \<open>
  \<^verbatim>\<open>hashes_of q\<close> is the set of the hashes carried by the error entries of \<^verbatim>\<open>q\<close>, and
  \<^verbatim>\<open>dedupe_inv\<close> says that the dedupe set is that set for the queue. \<^verbatim>\<open>truthy_hashes q\<close>: no
  error entry of \<^verbatim>\<open>q\<close> carries the empty string as its hash (the hash that \<^verbatim>\<open>queueLog\<close>
  computes contains a colon).
\<close>

definition hashes_of :: "LogEntry list \<Rightarrow> string set" where
  "hashes_of q = set (List.map_filter (\<lambda>entry. if type entry = Error then hash entry else None) q)"

definition dedupe_inv :: "'v state \<Rightarrow> bool" where
  "dedupe_inv s = (errorHashes s = hashes_of (logQueue s))"

definition truthy_hashes :: "LogEntry list \<Rightarrow> bool" where
  "truthy_hashes q = list_all (\<lambda>entry. type entry = Error \<longrightarrow> hash entry \<noteq> Some []) q"


text \<open>A sequence of \<^verbatim>\<open>queueLog\<close> calls, each with its own environment.\<close>

type_synonym 'v record_call = "'v env \<times> LogType \<times> string \<times> string"

definition record_all :: "'v record_call list \<Rightarrow> 'v state \<Rightarrow> 'v state" where
  "record_all calls s = foldl (\<lambda>t (env, ty, m, p). queueLog env ty m p t) s calls"









subsection \<open>Shapes of serialized text\<close>

text \<open>
  \<^verbatim>\<open>no_digit_ahead\<close>: the text does not go on with a digit. \<^verbatim>\<open>encode_tail\<close>: the end of a
  serialized entry, from after the timestamp.
\<close>

definition no_digit_ahead :: "string \<Rightarrow> bool" where
  "no_digit_ahead rest = (case rest of [] \<Rightarrow> True | c # cs \<Rightarrow> \<not> is_digit c)"

definition encode_tail :: "string option \<Rightarrow> string" where
  "encode_tail h = (case h of None \<Rightarrow> [] | Some t \<Rightarrow> '','' @ key ''hash'' @ quote t) @ ''}''"

subsection \<open>Concrete states and environments\<close>


definition two_queued :: "js_value state" where
  "two_queued = log (calm 6) ''b'' [] (error (calm 5) ''A'' [Number 1] (new_Logger Map.empty))"

definition refusing_errors :: "js_value env" where
  "refusing_errors =
     (calm 9)\<lparr>crashlytics_throws :=
                 (\<lambda>accepted c. case c of RecordError d \<Rightarrow> True | _ \<Rightarrow> False)\<rparr>"

definition store_full :: "js_value env" where
  "store_full = (calm 9)\<lparr>set_throws := (\<lambda>k. True)\<rparr>"




section \<open>Lemmas\<close>

subsection \<open>Parsing what was serialized\<close>

lemma expect_append: "expect p (p @ r) = Some r"
  by (induction p) simp_all

lemma below_16:
  "(d::nat) < 16 \<Longrightarrow>
   d = 0 \<or> d = 1 \<or> d = 2 \<or> d = 3 \<or> d = 4 \<or> d = 5 \<or> d = 6 \<or> d = 7 \<or> d = 8 \<or> d = 9
   \<or> d = 10 \<or> d = 11 \<or> d = 12 \<or> d = 13 \<or> d = 14 \<or> d = 15"
  by arith

lemma hex_val_digit: "d < 16 \<Longrightarrow> hex_val (hex_digit d) = Some d"
  by (drule below_16) (elim disjE; simp add: hex_val_def hex_digit_def)

lemma hex4_control:
  "n < 32 \<Longrightarrow> hex4 CHR ''0'' CHR ''0'' (hex_digit (n div 16)) (hex_digit (n mod 16)) = Some n"
proof -
  assume n: "n < 32"
  then have "n div 16 < 16" "n mod 16 < 16" by auto
  then have "hex_val (hex_digit (n div 16)) = Some (n div 16)"
    "hex_val (hex_digit (n mod 16)) = Some (n mod 16)"
    by (simp_all add: hex_val_digit)
  moreover have "hex_val CHR ''0'' = Some 0" by (simp add: hex_val_def)
  ultimately show ?thesis by (simp add: hex4_def)
qed

lemma parse_chars_escape:
  "parse_chars (escape_char c @ rest) = prepend c (parse_chars rest)"
proof -
  consider (special) "c \<in> {dquote, backslash, CHR 0x08, CHR 0x0C, CHR 0x0A, CHR 0x0D, CHR 0x09}"
    | (control) "c \<notin> {dquote, backslash, CHR 0x08, CHR 0x0C, CHR 0x0A, CHR 0x0D, CHR 0x09}"
        "(of_char c :: nat) < 32"
    | (plain) "c \<notin> {dquote, backslash, CHR 0x08, CHR 0x0C, CHR 0x0A, CHR 0x0D, CHR 0x09}"
        "\<not> (of_char c :: nat) < 32"
    by blast
  then show ?thesis
  proof cases
    case special
    then show ?thesis
      by (auto simp: escape_char_def parse_chars.simps unescape_def dquote_def backslash_def)
  next
    case control
    then have "escape_char c = [backslash, CHR ''u'', CHR ''0'', CHR ''0'',
        hex_digit ((of_char c :: nat) div 16), hex_digit ((of_char c :: nat) mod 16)]"
      by (simp add: escape_char_def)
    with control(2) show ?thesis
      by (simp add: parse_chars.simps hex4_control dquote_def backslash_def)
  next
    case plain
    then show ?thesis
      by (simp add: escape_char_def parse_chars.simps)
  qed
qed

lemma parse_chars_quoted:
  "parse_chars (concat (map escape_char s) @ dquote # rest) = Some (s, rest)"
  by (induction s) (simp_all add: parse_chars.simps parse_chars_escape prepend_def)

lemma parse_string_quote: "parse_string (quote s @ rest) = Some (s, rest)"
  by (simp add: parse_string_def quote_def parse_chars_quoted)

lemma below_10:
  "(d::nat) < 10 \<Longrightarrow>
   d = 0 \<or> d = 1 \<or> d = 2 \<or> d = 3 \<or> d = 4 \<or> d = 5 \<or> d = 6 \<or> d = 7 \<or> d = 8 \<or> d = 9"
  by arith

lemma digit_char_props:
  assumes "d < 10"
  shows "is_digit (digit_char d)" "(of_char (digit_char d) :: nat) - 48 = d"
    "digit_char d = CHR ''0'' \<longleftrightarrow> d = 0" "digit_char d \<noteq> CHR ''-''"
  using below_10[OF assms] by (elim disjE; simp add: is_digit_def digit_char_def)+

lemma digits_of_digits: "\<forall>c\<in>set (digits_of n). is_digit c"
proof (induction n rule: digits_of.induct)
  case (1 n)
  show ?case
  proof (cases "n < 10")
    case True
    then show ?thesis by (simp add: digits_of.simps[of n] digit_char_props)
  next
    case False
    with "1.IH" show ?thesis
      by (simp add: digits_of.simps[of n] digit_char_props)
  qed
qed

lemma digits_of_nonempty: "digits_of n \<noteq> []"
  by (simp add: digits_of.simps[of n])

lemma nat_of_digits_snoc:
  "nat_of_digits (ds @ [c]) = 10 * nat_of_digits ds + ((of_char c :: nat) - 48)"
  by (simp add: nat_of_digits_def)

lemma nat_of_digits_of: "nat_of_digits (digits_of n) = n"
proof (induction n rule: digits_of.induct)
  case (1 n)
  show ?case
  proof (cases "n < 10")
    case True
    then show ?thesis
      by (simp add: digits_of.simps[of n] nat_of_digits_def digit_char_props)
  next
    case False
    with "1.IH" show ?thesis
      by (simp add: digits_of.simps[of n] nat_of_digits_snoc digit_char_props)
  qed
qed

lemma digits_of_leading: "n \<noteq> 0 \<Longrightarrow> hd (digits_of n) \<noteq> CHR ''0''"
proof (induction n rule: digits_of.induct)
  case (1 n)
  show ?case
  proof (cases "n < 10")
    case True
    with "1.prems" show ?thesis
      by (simp add: digits_of.simps[of n] digit_char_props)
  next
    case False
    then have "n div 10 \<noteq> 0" by simp
    with "1.IH" False show ?thesis
      by (simp add: digits_of.simps[of n] digits_of_nonempty)
  qed
qed

lemma digits_of_length: "1 < length (digits_of n) \<Longrightarrow> n \<noteq> 0"
  by (cases "n = 0") (simp_all add: digits_of.simps[of 0])

lemma takeWhile_digits:
  "no_digit_ahead rest \<Longrightarrow> takeWhile is_digit (digits_of n @ rest) = digits_of n"
  "no_digit_ahead rest \<Longrightarrow> dropWhile is_digit (digits_of n @ rest) = rest"
  using digits_of_digits[of n]
  by (auto simp: no_digit_ahead_def takeWhile_append dropWhile_append split: list.splits)

lemma parse_nat_digits:
  "no_digit_ahead rest \<Longrightarrow> parse_nat (digits_of n @ rest) = Some (n, rest)"
  using digits_of_leading[of n] digits_of_length[of n]
  by (auto simp: parse_nat_def Let_def takeWhile_digits digits_of_nonempty nat_of_digits_of)

lemma hd_digits_not_minus: "hd (digits_of n) \<noteq> CHR ''-''"
proof -
  have "hd (digits_of n) \<in> set (digits_of n)"
    by (simp add: digits_of_nonempty)
  with digits_of_digits[of n] have "is_digit (hd (digits_of n))" by blast
  then show ?thesis by (auto simp: is_digit_def)
qed

lemma parse_int_show:
  "no_digit_ahead rest \<Longrightarrow> parse_int (show_int i @ rest) = Some (i, rest)"
proof (cases "i < 0")
  case True
  assume "no_digit_ahead rest"
  with True show ?thesis
    by (simp add: parse_int_def show_int_def parse_nat_digits)
next
  case False
  assume r: "no_digit_ahead rest"
  obtain c cs where ds: "digits_of (nat i) = c # cs"
    using digits_of_nonempty[of "nat i"] by (cases "digits_of (nat i)") auto
  with hd_digits_not_minus[of "nat i"] have "c \<noteq> CHR ''-''" by simp
  moreover have "parse_nat ((c # cs) @ rest) = Some (nat i, rest)"
    using parse_nat_digits[OF r, of "nat i"] ds by simp
  ultimately show ?thesis
    using False ds by (simp add: parse_int_def show_int_def)
qed

lemma field_string_quote: "field_string pre (pre @ quote s @ rest) = Some (s, rest)"
  by (simp add: field_string_def expect_append parse_string_quote)

lemma field_int_show:
  "no_digit_ahead rest \<Longrightarrow> field_int pre (pre @ show_int i @ rest) = Some (i, rest)"
  by (simp add: field_int_def expect_append parse_int_show)

lemma type_of_type_name: "type_of_name (type_name t) = Some t"
  by (cases t) (simp_all add: type_of_name_def type_name_def)

lemma parse_tail_encode: "parse_tail (encode_tail h @ rest) = Some (h, rest)"
proof (cases h)
  case None
  then show ?thesis by (simp add: parse_tail_def encode_tail_def)
next
  case (Some t)
  have "field_string ('','' @ key ''hash'') (('','' @ key ''hash'') @ quote t @ ''}'' @ rest)
      = Some (t, ''}'' @ rest)"
    by (rule field_string_quote)
  with Some show ?thesis
    by (simp add: parse_tail_def encode_tail_def)
qed

lemma no_digit_tail: "no_digit_ahead (encode_tail h @ rest)"
  by (cases h) (simp_all add: no_digit_ahead_def encode_tail_def is_digit_def)

lemma encode_entry_alt:
  "encode_entry e =
     (''{'' @ key ''type'') @ quote (type_name (type e))
     @ ('','' @ key ''message'') @ quote (message e)
     @ ('','' @ key ''params'') @ quote (params e)
     @ ('','' @ key ''timestamp'') @ show_int (timestamp e) @ encode_tail (hash e)"
  by (simp add: encode_entry_def encode_tail_def)

lemma parse_entry_encode: "parse_entry (encode_entry e @ rest) = Some (e, rest)"
proof -
  let ?r4 = "encode_tail (hash e) @ rest"
  let ?r3 = "('','' @ key ''timestamp'') @ show_int (timestamp e) @ ?r4"
  let ?r2 = "('','' @ key ''params'') @ quote (params e) @ ?r3"
  let ?r1 = "('','' @ key ''message'') @ quote (message e) @ ?r2"
  have e: "encode_entry e @ rest = (''{'' @ key ''type'') @ quote (type_name (type e)) @ ?r1"
    by (simp add: encode_entry_alt)
  have 1: "field_string (''{'' @ key ''type'') (encode_entry e @ rest)
      = Some (type_name (type e), ?r1)"
    unfolding e by (rule field_string_quote)
  have 2: "field_string ('','' @ key ''message'') ?r1 = Some (message e, ?r2)"
    by (rule field_string_quote)
  have 3: "field_string ('','' @ key ''params'') ?r2 = Some (params e, ?r3)"
    by (rule field_string_quote)
  have 4: "field_int ('','' @ key ''timestamp'') ?r3 = Some (timestamp e, ?r4)"
    by (rule field_int_show) (rule no_digit_tail)
  have 5: "parse_tail ?r4 = Some (hash e, rest)"
    by (rule parse_tail_encode)
  show ?thesis
    unfolding parse_entry_def
    by (simp only: 1 2 3 4 5 type_of_type_name Option.bind.simps prod.case) simp
qed

lemma encode_entry_starts: "\<exists>t. encode_entry e = CHR ''{'' # t"
  by (simp add: encode_entry_def)

lemma parse_list_more:
  "parse_entry s = Some (e, CHR '','' # r) \<Longrightarrow> parse_list s = map_option ((#) e) (parse_list r)"
  by (subst parse_list.simps) simp

lemma parse_list_last: "parse_entry s = Some (e, '']'') \<Longrightarrow> parse_list s = Some [e]"
  by (subst parse_list.simps) simp

lemma parse_list_join:
  "parse_list (join '','' (map encode_entry (e # es)) @ '']'') = Some (e # es)"
proof (induction es arbitrary: e)
  case Nil
  have "parse_entry (encode_entry e @ '']'') = Some (e, '']'')"
    by (rule parse_entry_encode)
  from parse_list_last[OF this] show ?case by simp
next
  case (Cons e' es)
  let ?rest = "join '','' (map encode_entry (e' # es)) @ '']''"
  have "parse_entry (encode_entry e @ CHR '','' # ?rest) = Some (e, CHR '','' # ?rest)"
    by (rule parse_entry_encode)
  from parse_list_more[OF this] Cons.IH[of e'] show ?case by simp
qed

lemma JSON_roundtrip: "JSON_parse (JSON_stringify q) = Inr q"
proof (cases q)
  case Nil
  then show ?thesis by (simp add: JSON_parse_def JSON_stringify_def)
next
  case (Cons e es)
  obtain t where t: "encode_entry e = CHR ''{'' # t"
    using encode_entry_starts by blast
  have "join '','' (map encode_entry (e # es)) @ '']'' \<noteq> '']''"
    by (cases es) (simp_all add: t)
  with parse_list_join[of e es] Cons show ?thesis
    by (simp add: JSON_parse_def JSON_stringify_def)
qed

lemma JSON_stringify_nonempty: "JSON_stringify q \<noteq> []"
  by (simp add: JSON_stringify_def)

subsection \<open>The calls of a flush\<close>

lemma and_then_simps [simp]:
  "and_then (Inl x) f = Inl x" "and_then (Inr s) f = f s"
  by (simp_all add: and_then_def)

lemma send_all_append:
  "send_all env (cs @ ds) s = and_then (send_all env cs s) (send_all env ds)"
  by (induction cs arbitrary: s) (auto simp: crashlytics_def)

lemma deliver_normal_send:
  "deliver_normal env es s = send_all env (map (\<lambda>entry. CrashlyticsLog (log_line entry)) es) s"
  by (induction es arbitrary: s) (auto simp: crashlytics_def)

lemma deliver_errors_send:
  "deliver_errors env es s =
     send_all env (concat (map (\<lambda>entry. [CrashlyticsLog (error_line entry),
                                          RecordError (error_description entry)]) es)) s"
  by (induction es arbitrary: s) (auto simp: crashlytics_def)

lemma send_all_accepted:
  "accepts_all env (remote s) cs \<Longrightarrow> send_all env cs s = Inr (s\<lparr>remote := remote s @ cs\<rparr>)"
  by (induction cs arbitrary: s) (auto simp: crashlytics_def)

lemma send_all_rejected:
  "\<not> accepts_all env (remote s) cs \<Longrightarrow>
   \<exists>c ds es. send_all env cs s = Inl (CrashlyticsError c, s\<lparr>remote := remote s @ ds\<rparr>)
     \<and> cs = ds @ c # es \<and> crashlytics_throws env (remote s @ ds) c"
proof (induction cs arbitrary: s)
  case Nil
  then show ?case by simp
next
  case (Cons c cs)
  show ?case
  proof (cases "crashlytics_throws env (remote s) c")
    case True
    then have "send_all env (c # cs) s = Inl (CrashlyticsError c, s\<lparr>remote := remote s @ []\<rparr>)"
      "c # cs = [] @ c # cs" "crashlytics_throws env (remote s @ []) c"
      by (simp_all add: crashlytics_def)
    then show ?thesis by blast
  next
    case False
    let ?s = "s\<lparr>remote := remote s @ [c]\<rparr>"
    from False Cons.prems have "\<not> accepts_all env (remote ?s) cs" by simp
    from Cons.IH[OF this] obtain c' ds es where
      "send_all env cs ?s = Inl (CrashlyticsError c', ?s\<lparr>remote := remote ?s @ ds\<rparr>)"
      "cs = ds @ c' # es" "crashlytics_throws env (remote ?s @ ds) c'"
      by blast
    with False have "send_all env (c # cs) s
        = Inl (CrashlyticsError c', s\<lparr>remote := remote s @ (c # ds)\<rparr>)"
      "c # cs = (c # ds) @ c' # es" "crashlytics_throws env (remote s @ (c # ds)) c'"
      by (simp_all add: crashlytics_def)
    then show ?thesis by blast
  qed
qed

lemma flush_deliver:
  "and_then (deliver_normal env (filter (\<lambda>entry. type entry \<noteq> Error) q) s)
     (deliver_errors env (filter (\<lambda>entry. type entry = Error) q))
   = send_all env (flush_calls q) s"
proof -
  have "deliver_errors env es = send_all env (concat (map (\<lambda>entry. [CrashlyticsLog (error_line entry),
      RecordError (error_description entry)]) es))" for es
    by (rule ext) (rule deliver_errors_send)
  then show ?thesis
    by (simp add: flush_calls_def send_all_append deliver_normal_send)
qed

lemma console_add_fields [simp]:
  "logQueue (console_add l s) = logQueue s"
  "errorHashes (console_add l s) = errorHashes s"
  "storage (console_add l s) = storage s"
  "remote (console_add l s) = remote s"
  "timerHandle (console_add l s) = timerHandle s"
  "timers (console_add l s) = timers s"
  "console (console_add l s) = console s @ [l]"
  by (simp_all add: console_add_def)

lemma saveQueue_fields [simp]:
  "logQueue (saveQueue env s) = logQueue s"
  "errorHashes (saveQueue env s) = errorHashes s"
  "remote (saveQueue env s) = remote s"
  "timerHandle (saveQueue env s) = timerHandle s"
  "timers (saveQueue env s) = timers s"
  "storage (saveQueue env s) =
     (if set_throws env QUEUE_KEY then storage s
      else (storage s)(QUEUE_KEY \<mapsto> JSON_stringify (logQueue s)))"
  by (simp_all add: saveQueue_def)

lemma flushLogs_nonempty:
  "logQueue s \<noteq> [] \<Longrightarrow>
   flushLogs env s =
     (case send_all env (flush_calls (logQueue s))
             (console_add (ConsoleLog, [Text (''[Logger] Flushing ''
                @ digits_of (length (logQueue s)) @ '' logs to Crashlytics'')]) s) of
        Inr s1 \<Rightarrow>
          console_add (ConsoleLog, [Text ''[Logger] Successfully flushed logs to Crashlytics''])
            (saveQueue env (s1\<lparr>logQueue := [], errorHashes := {}\<rparr>))
      | Inl (err, s1) \<Rightarrow>
          console_add (ConsoleError, [Text ''[Logger] Failed to flush logs:'', Thrown err]) s1)"
  by (simp add: flushLogs_def Let_def flush_deliver)

lemma flushLogs_accepted:
  assumes "logQueue s \<noteq> []" and "accepts_all env (remote s) (flush_calls (logQueue s))"
  shows "flushLogs env s =
    console_add (ConsoleLog, [Text ''[Logger] Successfully flushed logs to Crashlytics''])
      (saveQueue env
        ((console_add (ConsoleLog, [Text (''[Logger] Flushing ''
                @ digits_of (length (logQueue s)) @ '' logs to Crashlytics'')]) s)
           \<lparr>remote := remote s @ flush_calls (logQueue s), logQueue := [], errorHashes := {}\<rparr>))"
  using assms send_all_accepted[of env "console_add (ConsoleLog, [Text (''[Logger] Flushing ''
                @ digits_of (length (logQueue s)) @ '' logs to Crashlytics'')]) s"
      "flush_calls (logQueue s)"]
  by (simp add: flushLogs_nonempty)

lemma flushLogs_rejected:
  assumes "\<not> accepts_all env (remote s) (flush_calls (logQueue s))"
  shows "\<exists>c ds es. flushLogs env s =
      console_add (ConsoleError, [Text ''[Logger] Failed to flush logs:'', Thrown (CrashlyticsError c)])
        ((console_add (ConsoleLog, [Text (''[Logger] Flushing ''
                @ digits_of (length (logQueue s)) @ '' logs to Crashlytics'')]) s)
           \<lparr>remote := remote s @ ds\<rparr>)
    \<and> flush_calls (logQueue s) = ds @ c # es"
proof -
  let ?s0 = "console_add (ConsoleLog, [Text (''[Logger] Flushing ''
               @ digits_of (length (logQueue s)) @ '' logs to Crashlytics'')]) s"
  have ne: "logQueue s \<noteq> []"
    using assms by (auto simp: flush_calls_def)
  have "\<not> accepts_all env (remote ?s0) (flush_calls (logQueue s))"
    using assms by simp
  from send_all_rejected[OF this] obtain c ds es where
    "send_all env (flush_calls (logQueue s)) ?s0
      = Inl (CrashlyticsError c, ?s0\<lparr>remote := remote s @ ds\<rparr>)"
    and cs: "flush_calls (logQueue s) = ds @ c # es"
    by auto
  with ne have "flushLogs env s =
      console_add (ConsoleError, [Text ''[Logger] Failed to flush logs:'', Thrown (CrashlyticsError c)])
        (?s0\<lparr>remote := remote s @ ds\<rparr>)"
    by (simp add: flushLogs_nonempty)
  with cs show ?thesis by blast
qed

subsection \<open>Formatting\<close>

lemma map_params_ok:
  "map (format_param env) ps = map Inr ts \<Longrightarrow> map_params env ps = Inr ts"
  by (induction ps arbitrary: ts) auto

lemma map_params_throws:
  "\<exists>p\<in>set ps. \<exists>e. format_param env p = Inl e \<Longrightarrow> \<exists>e. map_params env ps = Inl e"
proof (induction ps)
  case Nil
  then show ?case by simp
next
  case (Cons a ps)
  show ?case
  proof (cases "format_param env a")
    case (Inl e)
    then show ?thesis by simp
  next
    case (Inr t)
    with Cons.prems have "\<exists>p\<in>set ps. \<exists>e. format_param env p = Inl e" by auto
    from Cons.IH[OF this] Inr show ?thesis by auto
  qed
qed

subsection \<open>What the public methods queue\<close>

lemma formatParams_fields [simp]:
  "logQueue (snd (formatParams env ps s)) = logQueue s"
  "errorHashes (snd (formatParams env ps s)) = errorHashes s"
  "storage (snd (formatParams env ps s)) = storage s"
  "remote (snd (formatParams env ps s)) = remote s"
  by (simp_all add: formatParams_def split: sum.splits)





subsection \<open>The calls of init\<close>


lemma restoreQueue_fields [simp]:
  "storage (restoreQueue env s) = storage s"
  "remote (restoreQueue env s) = remote s"
  "timerHandle (restoreQueue env s) = timerHandle s"
  "timers (restoreQueue env s) = timers s"
  "next_timer (restoreQueue env s) = next_timer s"
  by (simp_all add: restoreQueue_def console_add_def split: option.splits sum.splits)





subsection \<open>The dedupe set and the queue\<close>

lemma hashes_of_simps [simp]:
  "hashes_of [] = {}"
  "hashes_of (q @ [entry]) =
     (if type entry = Error then (case hash entry of Some h \<Rightarrow> insert h (hashes_of q) | None \<Rightarrow> hashes_of q)
      else hashes_of q)"
  by (auto simp: hashes_of_def List.map_filter_def split: option.splits)

lemma hashes_of_Cons:
  "hashes_of (entry # q) =
     (if type entry = Error then (case hash entry of Some h \<Rightarrow> insert h (hashes_of q) | None \<Rightarrow> hashes_of q)
      else hashes_of q)"
  by (auto simp: hashes_of_def List.map_filter_def split: option.splits)

lemma truthy_hashes_simps [simp]:
  "truthy_hashes []"
  "truthy_hashes (q @ [entry]) \<longleftrightarrow> truthy_hashes q \<and> (type entry = Error \<longrightarrow> hash entry \<noteq> Some [])"
  "truthy_hashes (entry # q) \<longleftrightarrow> (type entry = Error \<longrightarrow> hash entry \<noteq> Some []) \<and> truthy_hashes q"
  by (auto simp: truthy_hashes_def)

lemma add_hashes_truthy: "truthy_hashes q \<Longrightarrow> add_hashes q hs = hs \<union> hashes_of q"
  by (induction q arbitrary: hs) (auto simp: hashes_of_Cons split: option.splits)

lemma queueLog_keeps_inv:
  assumes "dedupe_inv s" "truthy_hashes (logQueue s)"
  shows "dedupe_inv (queueLog env ty m p s)" "truthy_hashes (logQueue (queueLog env ty m p s))"
  using assms by (auto simp: dedupe_inv_def queueLog_def Let_def generateErrorHash_def)

lemma record_all_keeps_inv:
  "dedupe_inv s \<Longrightarrow> truthy_hashes (logQueue s) \<Longrightarrow>
   dedupe_inv (record_all calls s) \<and> truthy_hashes (logQueue (record_all calls s))"
proof (induction calls arbitrary: s)
  case Nil
  then show ?case by (simp add: record_all_def)
next
  case (Cons c calls)
  obtain env ty m p where c: "c = (env, ty, m, p)" by (cases c) auto
  from Cons.IH[OF queueLog_keeps_inv[OF Cons.prems, of env ty m p]] show ?case
    by (simp add: record_all_def c)
qed

lemma restoreQueue_fresh:
  assumes "\<not> getString_throws env QUEUE_KEY" "truthy_hashes q"
  shows "logQueue (restoreQueue env (new_Logger (st(QUEUE_KEY \<mapsto> JSON_stringify q)))) = q"
    "errorHashes (restoreQueue env (new_Logger (st(QUEUE_KEY \<mapsto> JSON_stringify q)))) = hashes_of q"
  using assms
  by (simp_all add: restoreQueue_def new_Logger_def JSON_roundtrip JSON_stringify_nonempty
      add_hashes_truthy)



















subsection \<open>The concrete states\<close>

lemma accepts_all_calm: "accepts_all (calm t) accepted cs"
  by (induction cs arbitrary: accepted) (simp_all add: calm_def)

lemma two_queued_fields:
  "logQueue two_queued =
     [\<lparr>type = Error, message = ''[ERROR] A'', params = ''1'', timestamp = 5,
        hash = Some ''[ERROR] A:1''\<rparr>,
      \<lparr>type = Log, message = ''[LOG] b'', params = [], timestamp = 6, hash = None\<rparr>]"
  "errorHashes two_queued = {''[ERROR] A:1''}"
  "remote two_queued = []"
  by (simp_all add: two_queued_def log_def error_def formatParams_def format_param_def queueLog_def
      generateErrorHash_def calm_def new_Logger_def js_typeof_def show_int_def digits_of.simps digit_char_def
      Let_def)

lemma two_queued_storage:
  "storage two_queued = [QUEUE_KEY \<mapsto> JSON_stringify (logQueue two_queued)]"
  by (simp add: two_queued_def log_def error_def formatParams_def format_param_def queueLog_def
      generateErrorHash_def calm_def new_Logger_def js_typeof_def show_int_def digits_of.simps
      digit_char_def Let_def saveQueue_def console_add_def)







subsection \<open>Examples of serialized text\<close>

lemma stringify_example:
  \<open>JSON_stringify (logQueue two_queued) =
     ''[{"type":"error","message":"[ERROR] A","params":"1","timestamp":5,"hash":"[ERROR] A:1"},{"type":"log","message":"[LOG] b","params":"","timestamp":6}]''\<close>
  by (simp add: two_queued_fields JSON_stringify_def encode_entry_def key_def quote_def
      escape_char_def dquote_def backslash_def type_name_def show_int_def digits_of.simps
      digit_char_def)

lemma quote_example:
  "quote [CHR ''a'', dquote, CHR 0x0A, CHR 0x01, backslash] =
     [dquote, CHR ''a'', backslash, dquote, backslash, CHR ''n'',
      backslash, CHR ''u'', CHR ''0'', CHR ''0'', CHR ''0'', CHR ''1'', backslash, backslash, dquote]"
  by (simp add: quote_def escape_char_def dquote_def backslash_def hex_digit_def)

lemma parse_example:
  \<open>JSON_parse (''[{"type":"warn","message":"A'' @ [backslash] @ ''/'' @ [backslash]
                 @ ''u0042","params":"","timestamp":-12}]'')
     = Inr [\<lparr>type = Warn, message = ''A/B'', params = [], timestamp = - 12, hash = None\<rparr>]\<close>
  by code_simp

section \<open>The claims\<close>




text \<open>
  \<^bold>\<open>C2.\<close> Recording the same error (same message, same params) two or more times with no
  flush in between, from a state whose dedupe set does not hold its fingerprint, queues
  exactly one entry: the fingerprint is the message, a colon and the params; the first
  call appends the entry, carrying the fingerprint, and adds the fingerprint to the set;
  every later call appends nothing, writes nothing to the store and leaves queue, set
  and store as the first call left them.
\<close>

theorem queueLog_error_dedupe:
  assumes "generateErrorHash m p \<notin> errorHashes s" and "envs \<noteq> []"
  shows "generateErrorHash m p = m @ '':'' @ p
    \<and> logQueue (foldl (\<lambda>t e. queueLog e Error m p t) (queueLog env Error m p s) envs)
        = logQueue s @ [\<lparr>type = Error, message = m, params = p, timestamp = now env,
                          hash = Some (m @ '':'' @ p)\<rparr>]
    \<and> errorHashes (foldl (\<lambda>t e. queueLog e Error m p t) (queueLog env Error m p s) envs)
        = insert (m @ '':'' @ p) (errorHashes s)
    \<and> storage (foldl (\<lambda>t e. queueLog e Error m p t) (queueLog env Error m p s) envs)
        = storage (queueLog env Error m p s)"
proof -
  let ?h = "m @ '':'' @ p"
  let ?s1 = "queueLog env Error m p s"
  have h: "generateErrorHash m p = ?h"
    by (simp add: generateErrorHash_def)
  have q1: "logQueue ?s1 = logQueue s @ [\<lparr>type = Error, message = m, params = p,
      timestamp = now env, hash = Some ?h\<rparr>]"
    using assms(1) by (simp add: queueLog_def saveQueue_def console_add_def h Let_def)
  have h1: "errorHashes ?s1 = insert ?h (errorHashes s)"
    using assms(1) by (simp add: queueLog_def saveQueue_def console_add_def h Let_def)
  have rep: "logQueue (foldl (\<lambda>t e. queueLog e Error m p t) t es) = logQueue t
      \<and> errorHashes (foldl (\<lambda>t e. queueLog e Error m p t) t es) = errorHashes t
      \<and> storage (foldl (\<lambda>t e. queueLog e Error m p t) t es) = storage t"
    if "?h \<in> errorHashes t" for t :: "'a state" and es
    using that
  proof (induction es arbitrary: t)
    case Nil
    show ?case by simp
  next
    case (Cons e es)
    have dup: "queueLog e Error m p t
        = console_add (ConsoleLog, [Text ''[Logger] Skipping duplicate error:'', Text m]) t"
      using Cons.prems by (simp add: queueLog_def h Let_def)
    have "?h \<in> errorHashes (queueLog e Error m p t)"
      using Cons.prems by (simp add: dup console_add_def)
    from Cons.IH[OF this] show ?case
      by (simp add: dup console_add_def)
  qed
  have "?h \<in> errorHashes ?s1"
    by (simp add: h1)
  from rep[OF this, of envs] show ?thesis
    by (simp add: h q1 h1)
qed

theorem queueLog_error_dedupe_witness:
  "logQueue (foldl (\<lambda>t e. queueLog e Error ''[ERROR] A'' ''1'' t)
              (queueLog (calm 5) Error ''[ERROR] A'' ''1'' (new_Logger Map.empty))
              [calm 6, calm 7])
     = [\<lparr>type = Error, message = ''[ERROR] A'', params = ''1'', timestamp = 5,
         hash = Some ''[ERROR] A:1''\<rparr>]"
  using queueLog_error_dedupe
    [of "''[ERROR] A''" "''1''" "new_Logger Map.empty" "[calm 6, calm 7]" "calm 5"]
  by (simp add: generateErrorHash_def new_Logger_def calm_def)




text \<open>
  \<^bold>\<open>C4.\<close> Take any queue built by \<^verbatim>\<open>queueLog\<close> calls from an empty queue and an empty dedupe
  set. When \<^verbatim>\<open>saveQueue\<close> writes it to the store and a freshly constructed logger
  restores from that store, the restored queue equals the original and the restored dedupe
  set equals the original; the restored set holds exactly the hashes of the restored
  entries that are errors and carry a hash.
\<close>

theorem save_restore_roundtrip:
  assumes "logQueue s0 = []" and "errorHashes s0 = {}"
    and "\<not> set_throws env QUEUE_KEY" and "\<not> getString_throws env' QUEUE_KEY"
  shows "logQueue (restoreQueue env' (new_Logger (storage (saveQueue env (record_all calls s0)))))
      = logQueue (record_all calls s0)
    \<and> errorHashes (restoreQueue env' (new_Logger (storage (saveQueue env (record_all calls s0)))))
      = errorHashes (record_all calls s0)
    \<and> errorHashes (restoreQueue env' (new_Logger (storage (saveQueue env (record_all calls s0)))))
      = set (List.map_filter (\<lambda>entry. if type entry = Error then hash entry else None)
               (logQueue (restoreQueue env'
                  (new_Logger (storage (saveQueue env (record_all calls s0)))))))"
proof -
  let ?s = "record_all calls s0"
  have "dedupe_inv s0" "truthy_hashes (logQueue s0)"
    using assms(1,2) by (simp_all add: dedupe_inv_def)
  from record_all_keeps_inv[OF this, of calls]
  have inv: "errorHashes ?s = hashes_of (logQueue ?s)" and tr: "truthy_hashes (logQueue ?s)"
    by (simp_all add: dedupe_inv_def)
  have st: "storage (saveQueue env ?s) = (storage ?s)(QUEUE_KEY \<mapsto> JSON_stringify (logQueue ?s))"
    using assms(3) by simp
  show ?thesis
    unfolding st
    by (simp add: restoreQueue_fresh[OF assms(4) tr] inv hashes_of_def)
qed

theorem save_restore_roundtrip_witness:
  "logQueue (restoreQueue (calm 8) (new_Logger (storage (saveQueue (calm 7)
      (record_all [(calm 5, Error, ''[ERROR] A'', ''1''), (calm 6, Log, ''[LOG] b'', [])]
         (new_Logger Map.empty))))))
     = [\<lparr>type = Error, message = ''[ERROR] A'', params = ''1'', timestamp = 5,
         hash = Some ''[ERROR] A:1''\<rparr>,
        \<lparr>type = Log, message = ''[LOG] b'', params = [], timestamp = 6, hash = None\<rparr>]
   \<and> errorHashes (restoreQueue (calm 8) (new_Logger (storage (saveQueue (calm 7)
      (record_all [(calm 5, Error, ''[ERROR] A'', ''1''), (calm 6, Log, ''[LOG] b'', [])]
         (new_Logger Map.empty))))))
     = {''[ERROR] A:1''}"
proof -
  let ?s = "record_all [(calm 5, Error, ''[ERROR] A'', ''1''), (calm 6, Log, ''[LOG] b'', [])]
         (new_Logger Map.empty) :: js_value state"
  have q: "logQueue ?s = [\<lparr>type = Error, message = ''[ERROR] A'', params = ''1'', timestamp = 5,
         hash = Some ''[ERROR] A:1''\<rparr>,
        \<lparr>type = Log, message = ''[LOG] b'', params = [], timestamp = 6, hash = None\<rparr>]"
    and h: "errorHashes ?s = {''[ERROR] A:1''}"
    by (simp_all add: record_all_def queueLog_def generateErrorHash_def calm_def new_Logger_def
        Let_def)
  have "\<not> set_throws (calm 7) QUEUE_KEY" "\<not> getString_throws (calm 8) QUEUE_KEY"
    "logQueue (new_Logger Map.empty :: js_value state) = []"
    "errorHashes (new_Logger Map.empty :: js_value state) = {}"
    by (simp_all add: calm_def new_Logger_def)
  from save_restore_roundtrip[OF this(3,4,1,2),
      of "[(calm 5, Error, ''[ERROR] A'', ''1''), (calm 6, Log, ''[LOG] b'', [])]"]
  show ?thesis by (simp only: q h)
qed

text \<open>
  \<^bold>\<open>C5.\<close> When Crashlytics accepts every call of a flush, the calls it receives are: one
  log line for each non-error entry, in queue order; then, for each error entry in queue
  order, one log line immediately followed by one \<^verbatim>\<open>recordError\<close> whose description is the
  entry's message, a space and its params.
\<close>

theorem flushLogs_delivery_order:
  assumes "accepts_all env (remote s) (flush_calls (logQueue s))"
  shows "remote (flushLogs env s) =
    remote s
    @ map (\<lambda>entry. CrashlyticsLog (''['' @ toUpperCase (type_name (type entry)) @ ''] ''
                                     @ message entry @ '' '' @ params entry))
        (filter (\<lambda>entry. type entry \<noteq> Error) (logQueue s))
    @ concat (map (\<lambda>entry. [CrashlyticsLog (''[ERROR] '' @ message entry @ '' '' @ params entry),
                              RecordError (message entry @ '' '' @ params entry)])
                (filter (\<lambda>entry. type entry = Error) (logQueue s)))"
proof (cases "logQueue s = []")
  case True
  then show ?thesis by (simp add: flushLogs_def)
next
  case False
  have "remote (flushLogs env s) = remote s @ flush_calls (logQueue s)"
    by (simp add: flushLogs_accepted[OF False assms])
  then show ?thesis
    by (simp add: flush_calls_def log_line_def error_line_def error_description_def)
qed

theorem flushLogs_delivery_order_witness:
  "remote (flushLogs (calm 9) two_queued) =
     [CrashlyticsLog ''[LOG] [LOG] b '', CrashlyticsLog ''[ERROR] [ERROR] A 1'',
      RecordError ''[ERROR] A 1'']"
  using flushLogs_delivery_order[of "calm 9" two_queued, OF accepts_all_calm]
  by (simp add: two_queued_fields toUpperCase_def upper_char_def type_name_def)

text \<open>
  \<^bold>\<open>C6.\<close> When some delivery call of a flush throws, the flush catches it and logs it, and
  the queue, the dedupe set and the store are what they were before the flush: nothing is
  cleared and nothing is written.
\<close>

theorem flushLogs_failure_keeps_state:
  assumes "\<not> accepts_all env (remote s) (flush_calls (logQueue s))"
  shows "logQueue (flushLogs env s) = logQueue s
    \<and> errorHashes (flushLogs env s) = errorHashes s
    \<and> storage (flushLogs env s) = storage s
    \<and> (\<exists>c. last (console (flushLogs env s))
          = (ConsoleError, [Text ''[Logger] Failed to flush logs:'', Thrown (CrashlyticsError c)]))"
proof -
  from flushLogs_rejected[OF assms] obtain c ds es where
    "flushLogs env s =
      console_add (ConsoleError, [Text ''[Logger] Failed to flush logs:'', Thrown (CrashlyticsError c)])
        ((console_add (ConsoleLog, [Text (''[Logger] Flushing ''
                @ digits_of (length (logQueue s)) @ '' logs to Crashlytics'')]) s)
           \<lparr>remote := remote s @ ds\<rparr>)"
    by blast
  then show ?thesis by simp
qed

theorem flushLogs_failure_keeps_state_witness:
  "logQueue (flushLogs refusing_errors two_queued) = logQueue two_queued
   \<and> errorHashes (flushLogs refusing_errors two_queued) = {''[ERROR] A:1''}
   \<and> storage (flushLogs refusing_errors two_queued)
       = [QUEUE_KEY \<mapsto> JSON_stringify (logQueue two_queued)]"
  using flushLogs_failure_keeps_state[of refusing_errors two_queued]
  by (simp add: two_queued_fields two_queued_storage flush_calls_def refusing_errors_def calm_def)

text \<open>
  \<^bold>\<open>C7\<close>, as stated, fails when the write of the emptied queue throws: \<^verbatim>\<open>saveQueue\<close> catches
  the failure, and the store keeps the queue that was just delivered.
\<close>

theorem flushLogs_store_failure_counterexample:
  "logQueue two_queued \<noteq> []
   \<and> accepts_all store_full (remote two_queued) (flush_calls (logQueue two_queued))
   \<and> storage (flushLogs store_full two_queued) QUEUE_KEY \<noteq> Some (JSON_stringify [])"
proof -
  have a: "accepts_all store_full (remote two_queued) (flush_calls (logQueue two_queued))"
    by (simp add: two_queued_fields flush_calls_def store_full_def calm_def)
  have ne: "logQueue two_queued \<noteq> []"
    by (simp add: two_queued_fields)
  have st: "set_throws store_full QUEUE_KEY"
    by (simp add: store_full_def)
  have "storage (flushLogs store_full two_queued) = storage two_queued"
    by (simp add: flushLogs_accepted[OF ne a] st)
  moreover have "JSON_stringify (logQueue two_queued) \<noteq> JSON_stringify []"
    by (simp add: two_queued_fields JSON_stringify_def encode_entry_def)
  ultimately show ?thesis
    using a ne by (simp add: two_queued_storage)
qed

text \<open>
  \<^bold>\<open>C7\<close>, amended. After a flush of a non-empty queue in which every delivery call succeeds,
  the queue is empty and the dedupe set is empty; the store holds the serialization of the
  empty queue, \<^verbatim>\<open>[]\<close>, under the queue key when the write does not throw, and is unchanged
  when it throws. A flush of an empty queue changes nothing: no delivery, no write.
\<close>

theorem flushLogs_success_clears:
  "(logQueue s \<noteq> [] \<and> accepts_all env (remote s) (flush_calls (logQueue s)) \<longrightarrow>
      logQueue (flushLogs env s) = [] \<and> errorHashes (flushLogs env s) = {}
      \<and> storage (flushLogs env s) =
          (if set_throws env QUEUE_KEY then storage s
           else (storage s)(QUEUE_KEY \<mapsto> JSON_stringify [])))
   \<and> JSON_stringify [] = ''[]''
   \<and> (logQueue s = [] \<longrightarrow> flushLogs env s = s)"
proof -
  have "JSON_stringify [] = ''[]''"
    by (simp add: JSON_stringify_def)
  moreover have "logQueue s = [] \<longrightarrow> flushLogs env s = s"
    by (simp add: flushLogs_def)
  moreover have "logQueue (flushLogs env s) = [] \<and> errorHashes (flushLogs env s) = {}
      \<and> storage (flushLogs env s) =
          (if set_throws env QUEUE_KEY then storage s
           else (storage s)(QUEUE_KEY \<mapsto> JSON_stringify []))"
    if "logQueue s \<noteq> []" "accepts_all env (remote s) (flush_calls (logQueue s))"
    by (simp add: flushLogs_accepted[OF that])
  ultimately show ?thesis by blast
qed

theorem flushLogs_success_clears_witness:
  "logQueue (flushLogs (calm 9) two_queued) = []
   \<and> errorHashes (flushLogs (calm 9) two_queued) = {}
   \<and> storage (flushLogs (calm 9) two_queued) QUEUE_KEY = Some ''[]''
   \<and> flushLogs (calm 9) (new_Logger Map.empty) = (new_Logger Map.empty :: js_value state)"
  using flushLogs_success_clears[of two_queued "calm 9"]
    flushLogs_success_clears[of "new_Logger Map.empty :: js_value state" "calm 9"]
    accepts_all_calm[of 9 "remote two_queued" "flush_calls (logQueue two_queued)"]
  by (simp add: two_queued_fields(1) calm_def new_Logger_def)



text \<open>
  \<^bold>\<open>C9.\<close> \<^verbatim>\<open>formatParams\<close> maps the empty argument list to the empty string. Otherwise each
  argument goes to \<^verbatim>\<open>JSON.stringify\<close> when \<^verbatim>\<open>typeof\<close> says \<^verbatim>\<open>object\<close> and it is not \<^verbatim>\<open>null\<close>, and
  to \<^verbatim>\<open>String\<close> otherwise, and the results are joined with one space. When one of these
  conversions throws, the result is the string \<^verbatim>\<open>[Error formatting parameters]\<close>, the
  error is logged, and nothing is thrown to the caller.
\<close>

theorem formatParams_result:
  "formatParams env [] s = ([], s)
   \<and> (ps \<noteq> [] \<and> map (format_param env) ps = map Inr ts \<longrightarrow>
        formatParams env ps s = (join '' '' ts, s))
   \<and> (ps \<noteq> [] \<and> (\<exists>p\<in>set ps. \<exists>e. format_param env p = Inl e) \<longrightarrow>
        (\<exists>e. formatParams env ps s =
           (''[Error formatting parameters]'',
            console_add (ConsoleError, [Text ''[Logger] Error formatting log parameters:'',
                                        Thrown e]) s)))
   \<and> format_param env p =
        (if typeof env p = ''object'' \<and> p \<noteq> js_null env then stringify env p
         else toString env p)"
proof -
  have "formatParams env [] s = ([], s)"
    by (simp add: formatParams_def)
  moreover have "formatParams env ps s = (join '' '' ts, s)"
    if "ps \<noteq> []" "map (format_param env) ps = map Inr ts"
    using that by (simp add: formatParams_def map_params_ok)
  moreover have "\<exists>e. formatParams env ps s =
           (''[Error formatting parameters]'',
            console_add (ConsoleError, [Text ''[Logger] Error formatting log parameters:'',
                                        Thrown e]) s)"
    if "ps \<noteq> []" "\<exists>p\<in>set ps. \<exists>e. format_param env p = Inl e"
  proof -
    from map_params_throws[OF that(2)] obtain e where "map_params env ps = Inl e" by blast
    with that(1) have "formatParams env ps s =
           (''[Error formatting parameters]'',
            console_add (ConsoleError, [Text ''[Logger] Error formatting log parameters:'',
                                        Thrown e]) s)"
      by (simp add: formatParams_def)
    then show ?thesis by blast
  qed
  ultimately show ?thesis
    by (simp add: format_param_def)
qed

theorem formatParams_result_witness:
  "formatParams (calm 0) [] (new_Logger Map.empty) = ([], new_Logger Map.empty)
   \<and> fst (formatParams (calm 0) [Str ''x'', Number 5, Array [Number 1, Null], Null]
            (new_Logger Map.empty)) = ''x 5 [1,null] null''
   \<and> fst (formatParams (calm 0) [Str ''x'', Cyclic] (new_Logger Map.empty))
       = ''[Error formatting parameters]''"
proof -
  have c: "format_param (calm 0) Cyclic = Inl FormatError"
    by (simp add: format_param_def calm_def js_typeof_def js_stringify_def)
  have m: "map (format_param (calm 0)) [Str ''x'', Number 5, Array [Number 1, Null], Null]
      = map Inr [''x'', ''5'', ''[1,null]'', ''null'']"
    by (simp add: format_param_def calm_def js_typeof_def js_stringify_def show_int_def
        digits_of.simps digit_char_def)
  have e: "formatParams (calm 0) [] (new_Logger Map.empty) = ([], new_Logger Map.empty)"
    using formatParams_result[of "calm 0" "new_Logger Map.empty"] by blast
  have "[Str ''x'', Number 5, Array [Number 1, Null], Null] \<noteq> []
      \<and> map (format_param (calm 0)) [Str ''x'', Number 5, Array [Number 1, Null], Null]
          = map Inr [''x'', ''5'', ''[1,null]'', ''null'']
      \<longrightarrow> formatParams (calm 0) [Str ''x'', Number 5, Array [Number 1, Null], Null]
            (new_Logger Map.empty)
          = (join '' '' [''x'', ''5'', ''[1,null]'', ''null''], new_Logger Map.empty)"
    using formatParams_result[of "calm 0" "new_Logger Map.empty"
      "[Str ''x'', Number 5, Array [Number 1, Null], Null]" "[''x'', ''5'', ''[1,null]'', ''null'']"]
    by blast
  with m have j: "fst (formatParams (calm 0) [Str ''x'', Number 5, Array [Number 1, Null], Null]
      (new_Logger Map.empty)) = ''x 5 [1,null] null''"
    by simp
  have "[Str ''x'', Cyclic] \<noteq> [] \<and> (\<exists>p\<in>set [Str ''x'', Cyclic]. \<exists>e. format_param (calm 0) p = Inl e)
      \<longrightarrow> (\<exists>e. formatParams (calm 0) [Str ''x'', Cyclic] (new_Logger Map.empty) =
           (''[Error formatting parameters]'',
            console_add (ConsoleError, [Text ''[Logger] Error formatting log parameters:'',
                                        Thrown e]) (new_Logger Map.empty)))"
    using formatParams_result[of "calm 0" "new_Logger Map.empty" "[Str ''x'', Cyclic]"]
    by blast
  with c have "fst (formatParams (calm 0) [Str ''x'', Cyclic] (new_Logger Map.empty))
      = ''[Error formatting parameters]''"
    by auto
  with e j show ?thesis by simp
qed



end
